theory Spec2Isabelle
  imports Complex_Main
begin

section \<open>Python string primitives used by the two programs\<close>

text \<open>
  A Python \<open>str\<close> is modelled as a \<open>string\<close> whose characters stand for the code points
  0..255.  On that range \<open>isspace\<close> and the line boundaries of \<open>str.splitlines\<close> are those of
  CPython; the case mappings \<open>str_lower\<close> and \<open>str_capitalize\<close> are those of the ASCII
  letters and leave every other character as it is.
  Python floats (speeds, delays, sleep times) are modelled as rationals, so the loops that
  add up sleep times are exact.
\<close>

definition isspace :: "char \<Rightarrow> bool" where
  "isspace c \<longleftrightarrow> (of_char c :: nat) \<in> {9, 10, 11, 12, 13, 28, 29, 30, 31, 32, 133, 160}"

definition char_lower :: "char \<Rightarrow> char" where
  "char_lower c = (let n = (of_char c :: nat) in if 65 \<le> n \<and> n \<le> 90 then char_of (n + 32) else c)"

definition char_upper :: "char \<Rightarrow> char" where
  "char_upper c = (let n = (of_char c :: nat) in if 97 \<le> n \<and> n \<le> 122 then char_of (n - 32) else c)"

definition str_lower :: "string \<Rightarrow> string" where
  "str_lower s = map char_lower s"

text \<open>\<open>s.capitalize()\<close>: first character upper-cased, all others lower-cased.\<close>

fun str_capitalize :: "string \<Rightarrow> string" where
  "str_capitalize [] = []"
| "str_capitalize (c # cs) = char_upper c # map char_lower cs"

definition str_lstrip :: "string \<Rightarrow> string" where
  "str_lstrip s = dropWhile isspace s"

definition str_rstrip :: "string \<Rightarrow> string" where
  "str_rstrip s = rev (dropWhile isspace (rev s))"

definition str_strip :: "string \<Rightarrow> string" where
  "str_strip s = str_rstrip (str_lstrip s)"

text \<open>\<open>s.rstrip(chars)\<close> with an explicit set of characters to remove.\<close>

definition str_rstrip_chars :: "string \<Rightarrow> string \<Rightarrow> string" where
  "str_rstrip_chars chars s = rev (dropWhile (\<lambda>c. c \<in> set chars) (rev s))"

text \<open>\<open>s.split(d)\<close> for a one-character separator: never returns the empty list.\<close>

fun str_split :: "char \<Rightarrow> string \<Rightarrow> string list" where
  "str_split d [] = [[]]"
| "str_split d (c # cs) =
     (if c = d then [] # str_split d cs
      else (case str_split d cs of [] \<Rightarrow> [[c]] | w # ws \<Rightarrow> (c # w) # ws))"

text \<open>\<open>sep.join(parts)\<close>.\<close>

fun str_join :: "string \<Rightarrow> string list \<Rightarrow> string" where
  "str_join sep [] = []"
| "str_join sep [x] = x"
| "str_join sep (x # y # ys) = x @ sep @ str_join sep (y # ys)"

text \<open>\<open>s.replace(old, new)\<close> for a one-character \<open>old\<close>.\<close>

definition str_replace :: "char \<Rightarrow> string \<Rightarrow> string \<Rightarrow> string" where
  "str_replace old new s = concat (map (\<lambda>c. if c = old then new else [c]) s)"

text \<open>
  \<open>s.splitlines()\<close>: a line ends at LF, VT, FF, FS, GS, RS, NEL, at CR, and at CR LF taken as
  one boundary; a final boundary does not open a further, empty line.
\<close>

definition is_linebreak :: "char \<Rightarrow> bool" where
  "is_linebreak c \<longleftrightarrow> (of_char c :: nat) \<in> {10, 11, 12, 13, 28, 29, 30, 133}"

fun str_splitlines :: "string \<Rightarrow> string list" where
  "str_splitlines [] = []"
| "str_splitlines [c] = (if is_linebreak c then [[]] else [[c]])"
| "str_splitlines (c # d # ds) =
     (if c = CHR 0x0D \<and> d = CHR 0x0A then [] # str_splitlines ds
      else if is_linebreak c then [] # str_splitlines (d # ds)
      else (case str_splitlines (d # ds) of [] \<Rightarrow> [[c]] | l # ls \<Rightarrow> (c # l) # ls))"

section \<open>typer.py: hotkey utilities\<close>

definition pretty_hotkey_display :: "string \<Rightarrow> string" where
  "pretty_hotkey_display hk_text =
     str_join ''+'' (map str_capitalize (str_split (CHR ''+'') hk_text))"

datatype py_error = ValueError string

text \<open>The loop over \<open>parts[:-1]\<close> that wraps one modifier.\<close>

definition convert_modifier :: "string \<Rightarrow> string" where
  "convert_modifier p =
     (if p = ''ctrl'' \<or> p = ''control'' then ''<ctrl>''
      else if p = ''alt'' then ''<alt>''
      else if p = ''shift'' then ''<shift>''
      else ''<'' @ p @ ''>'')"

definition hotkey_parts :: "string \<Rightarrow> string list" where
  "hotkey_parts hk_text =
     map (\<lambda>p. str_lower (str_strip p))
       (filter (\<lambda>p. str_strip p \<noteq> []) (str_split (CHR ''+'') hk_text))"

definition to_pynput_hotkey :: "string \<Rightarrow> py_error + string" where
  "to_pynput_hotkey hk_text =
     (let parts = hotkey_parts hk_text in
      if length parts = 0 then Inl (ValueError ''Empty hotkey'')
      else if length parts = 1 then Inr (hd parts)
      else Inr (str_join ''+'' (map convert_modifier (butlast parts) @ [last parts])))"

section \<open>typer.py: the formatters of TypingWorker\<close>

definition format_python :: "string \<Rightarrow> string" where
  "format_python txt = str_join [CHR 0x0A] (map str_rstrip (str_splitlines txt))"

definition format_c_style :: "string \<Rightarrow> string" where
  "format_c_style txt = str_join [CHR 0x0A] (map str_rstrip (str_splitlines txt))"

definition format_text :: "string \<Rightarrow> string" where
  "format_text txt = str_rstrip_chars [CHR 0x0A] txt"

text \<open>The language dispatch at the head of \<open>TypingWorker.run\<close>.\<close>

definition preformat :: "string \<Rightarrow> string \<Rightarrow> string" where
  "preformat language txt =
     (if language = ''python'' then format_python txt
      else if language \<in> {''c++'', ''java'', ''javascript'', ''c#''} then format_c_style txt
      else format_text txt)"

section \<open>auto\_typer.py: formatters and hotkey display of ModernAutoTyper\<close>

text \<open>
  Functions of \<open>auto_typer.py\<close> carry the prefix \<open>mat_\<close> (class ModernAutoTyper) or
  \<open>hkd_\<close> (class HotkeyDialog), since both files use the same method names.
\<close>

text \<open>The body of the loop shared by \<open>format_python_code\<close> and \<open>format_generic_code\<close>.\<close>

definition mat_format_line :: "string \<Rightarrow> string list" where
  "mat_format_line line =
     (let stripped = str_strip line in
      if stripped \<noteq> [] then
        [replicate (length line - length (str_lstrip line)) (CHR '' '') @ stripped]
      else [])"

definition mat_format_python_code :: "string \<Rightarrow> string" where
  "mat_format_python_code txt =
     str_join [CHR 0x0A] (concat (map mat_format_line (str_split (CHR 0x0A) txt)))"

definition mat_format_generic_code :: "string \<Rightarrow> string" where
  "mat_format_generic_code txt =
     str_join [CHR 0x0A] (concat (map mat_format_line (str_split (CHR 0x0A) txt)))"

definition mat_format_cpp_code :: "string \<Rightarrow> string" where
  "mat_format_cpp_code txt = mat_format_generic_code txt"

definition mat_format_java_code :: "string \<Rightarrow> string" where
  "mat_format_java_code txt = mat_format_generic_code txt"

definition mat_format_javascript_code :: "string \<Rightarrow> string" where
  "mat_format_javascript_code txt = mat_format_generic_code txt"

definition mat_format_csharp_code :: "string \<Rightarrow> string" where
  "mat_format_csharp_code txt = mat_format_generic_code txt"

text \<open>The language dispatch at the head of \<open>type_normal_text\<close>.\<close>

definition mat_preformat :: "string \<Rightarrow> string \<Rightarrow> string" where
  "mat_preformat lang txt =
     (if lang \<noteq> ''text'' then
        (if lang = ''python'' then mat_format_python_code txt
         else if lang = ''c++'' then mat_format_cpp_code txt
         else if lang = ''java'' then mat_format_java_code txt
         else if lang = ''javascript'' then mat_format_javascript_code txt
         else if lang = ''c#'' then mat_format_csharp_code txt
         else txt)
      else txt)"

definition mat_format_hotkey_for_display :: "string \<Rightarrow> string" where
  "mat_format_hotkey_for_display hotkey =
     str_capitalize
       (str_replace (CHR ''+'') ''+'' (str_replace (CHR ''>'') [] (str_replace (CHR ''<'') [] hotkey)))"

section \<open>typer.py: TypingWorker\<close>

text \<open>
  What a run does to the outside world is recorded as a trace of effects: the calls of
  \<open>pyautogui.press\<close> and \<open>pyautogui.write\<close>, and the calls of \<open>time.sleep\<close>.
\<close>

datatype key_event = Press string | Write char

datatype effect = Key key_event | Sleep rat

text \<open>The Qt signals \<open>progress\<close>, \<open>finished\<close> and \<open>error\<close> of the worker, with their message.\<close>

datatype signal = Progress string | Finished string | Error string

text \<open>
  The environment of one run.  The stop flag is a \<open>threading.Event\<close> set by another thread, so
  the worker only knows what each of its calls of \<open>is_set\<close> returns: \<open>stop_flag e k\<close> is the
  answer to the \<open>k\<close>-th call of the run (counted from 0).  \<open>emit_raises e k\<close> is the exception
  message when the \<open>k\<close>-th call of pyautogui raises.  \<open>focus_query\<close> is the name or pid found by
  the foreground-window lookup, \<open>None\<close> when the lookup raises.  \<open>format_3f\<close> renders a float
  with three decimals.
\<close>

record env =
  stop_flag :: "nat \<Rightarrow> bool"
  emit_raises :: "nat \<Rightarrow> string option"
  win32_available :: bool
  focus_query :: "string option"
  format_3f :: "rat \<Rightarrow> string"

record wstate =
  checks :: nat
  emits :: nat
  trace :: "effect list"

definition is_set :: "env \<Rightarrow> wstate \<Rightarrow> bool \<times> wstate" where
  "is_set e s = (stop_flag e (checks s), s\<lparr>checks := Suc (checks s)\<rparr>)"

definition emit :: "env \<Rightarrow> key_event \<Rightarrow> wstate \<Rightarrow> string + wstate" where
  "emit e k s =
     (case emit_raises e (emits s) of
        Some msg \<Rightarrow> Inl msg
      | None \<Rightarrow> Inr (s\<lparr>emits := Suc (emits s), trace := trace s @ [Key k]\<rparr>))"

definition sleep :: "rat \<Rightarrow> wstate \<Rightarrow> wstate" where
  "sleep d s = s\<lparr>trace := trace s @ [Sleep d]\<rparr>"

record TypingWorker =
  tw_text :: string
  tw_speed :: rat
  tw_language :: string
  tw_start_delay :: rat
  tw_type_any_window :: bool

text \<open>\<open>TypingWorker.__init__\<close>; the stop flag it stores is the one of the environment.\<close>

definition TypingWorker_init :: "string \<Rightarrow> rat \<Rightarrow> string \<Rightarrow> rat \<Rightarrow> bool \<Rightarrow> TypingWorker" where
  "TypingWorker_init txt speed language start_delay type_any_window =
     \<lparr>tw_text = txt, tw_speed = max 0 speed, tw_language = language,
      tw_start_delay = max 0 start_delay, tw_type_any_window = type_any_window\<rparr>"

text \<open>
  The wait for the start delay: one test of the stop flag before every sleep of 0.05 s.
  The result is \<open>True\<close> when the flag was found set.
\<close>

function countdown :: "env \<Rightarrow> rat \<Rightarrow> rat \<Rightarrow> wstate \<Rightarrow> bool \<times> wstate" where
  "countdown e start_delay waited s =
     (if waited < start_delay then
        (case is_set e s of
           (True, s1) \<Rightarrow> (True, s1)
         | (False, s1) \<Rightarrow> countdown e start_delay (waited + 1 / 20) (sleep (1 / 20) s1))
      else (False, s))"
  by pat_completeness auto
termination
proof (relation "measure (\<lambda>(e, start_delay, waited, s). nat \<lceil>(start_delay - waited) * 20\<rceil>)")
  show "wf (measure (\<lambda>(e, start_delay, waited, s). nat \<lceil>(start_delay - waited) * 20\<rceil>))"
    by simp
next
  fix e :: env and start_delay waited :: rat and s x :: wstate and b :: bool
  assume lt: "waited < start_delay"
  have "(start_delay - (waited + 1 / 20)) * 20 = (start_delay - waited) * 20 - 1"
    by (simp add: algebra_simps)
  then have "\<lceil>(start_delay - (waited + 1 / 20)) * 20\<rceil> = \<lceil>(start_delay - waited) * 20\<rceil> - 1"
    by (simp only: ceiling_diff_one)
  moreover have "0 < \<lceil>(start_delay - waited) * 20\<rceil>"
    using lt by simp
  ultimately show "((e, start_delay, waited + 1 / 20, sleep (1 / 20) x), (e, start_delay, waited, s))
      \<in> measure (\<lambda>(e, start_delay, waited, s). nat \<lceil>(start_delay - waited) * 20\<rceil>)"
    by simp
qed

text \<open>The pause after a keystroke, in steps of at most 0.01 s, each after a test of the flag.\<close>

function keystroke_sleep :: "env \<Rightarrow> rat \<Rightarrow> rat \<Rightarrow> wstate \<Rightarrow> bool \<times> wstate" where
  "keystroke_sleep e speed slept s =
     (if slept < speed then
        (case is_set e s of
           (True, s1) \<Rightarrow> (True, s1)
         | (False, s1) \<Rightarrow>
             (let step = min (1 / 100) (speed - slept)
              in keystroke_sleep e speed (slept + step) (sleep step s1)))
      else (False, s))"
  by pat_completeness auto
termination
proof (relation "measure (\<lambda>(e, speed, slept, s). nat \<lceil>(speed - slept) * 100\<rceil>)")
  show "wf (measure (\<lambda>(e, speed, slept, s). nat \<lceil>(speed - slept) * 100\<rceil>))"
    by simp
next
  fix e :: env and speed slept step :: rat and s x :: wstate and b :: bool
  assume lt: "slept < speed" and step: "step = min (1 / 100) (speed - slept)"
  have pos: "0 < \<lceil>(speed - slept) * 100\<rceil>"
    using lt by simp
  have "\<lceil>(speed - (slept + step)) * 100\<rceil> < \<lceil>(speed - slept) * 100\<rceil>"
  proof (cases "1 / 100 \<le> speed - slept")
    case True
    then have "step = 1 / 100" using step by simp
    then have "(speed - (slept + step)) * 100 = (speed - slept) * 100 - 1"
      by (simp add: algebra_simps)
    then have "\<lceil>(speed - (slept + step)) * 100\<rceil> = \<lceil>(speed - slept) * 100\<rceil> - 1"
      by (simp only: ceiling_diff_one)
    then show ?thesis by simp
  next
    case False
    then have "step = speed - slept" using step by simp
    then have "(speed - (slept + step)) * 100 = 0" by simp
    then show ?thesis using pos by simp
  qed
  then show "((e, speed, slept + step, sleep step x), (e, speed, slept, s))
      \<in> measure (\<lambda>(e, speed, slept, s). nat \<lceil>(speed - slept) * 100\<rceil>)"
    using pos by simp
qed

text \<open>The pause after \<open>enter\<close>: steps of 0.01 s until \<open>nl_delay\<close> is reached.\<close>

function newline_sleep :: "env \<Rightarrow> rat \<Rightarrow> rat \<Rightarrow> wstate \<Rightarrow> bool \<times> wstate" where
  "newline_sleep e nl_delay slept s =
     (if slept < nl_delay then
        (case is_set e s of
           (True, s1) \<Rightarrow> (True, s1)
         | (False, s1) \<Rightarrow> newline_sleep e nl_delay (slept + 1 / 100) (sleep (1 / 100) s1))
      else (False, s))"
  by pat_completeness auto
termination
proof (relation "measure (\<lambda>(e, nl_delay, slept, s). nat \<lceil>(nl_delay - slept) * 100\<rceil>)")
  show "wf (measure (\<lambda>(e, nl_delay, slept, s). nat \<lceil>(nl_delay - slept) * 100\<rceil>))"
    by simp
next
  fix e :: env and nl_delay slept :: rat and s x :: wstate and b :: bool
  assume lt: "slept < nl_delay"
  have "(nl_delay - (slept + 1 / 100)) * 100 = (nl_delay - slept) * 100 - 1"
    by (simp add: algebra_simps)
  then have "\<lceil>(nl_delay - (slept + 1 / 100)) * 100\<rceil> = \<lceil>(nl_delay - slept) * 100\<rceil> - 1"
    by (simp only: ceiling_diff_one)
  moreover have "0 < \<lceil>(nl_delay - slept) * 100\<rceil>"
    using lt by simp
  ultimately show "((e, nl_delay, slept + 1 / 100, sleep (1 / 100) x), (e, nl_delay, slept, s))
      \<in> measure (\<lambda>(e, nl_delay, slept, s). nat \<lceil>(nl_delay - slept) * 100\<rceil>)"
    by simp
qed

text \<open>How a loop of the run is left early: the stop flag was seen, or pyautogui raised.\<close>

datatype exit = Stopped | Raised string

text \<open>The key sent for one character of a line.\<close>

definition char_key :: "char \<Rightarrow> key_event" where
  "char_key ch = (if ch = CHR 0x09 then Press ''tab'' else Write ch)"

text \<open>The loop \<open>for ch in line\<close>; \<open>None\<close> when the line was typed to its end.\<close>

fun type_chars :: "env \<Rightarrow> rat \<Rightarrow> string \<Rightarrow> wstate \<Rightarrow> exit option \<times> wstate" where
  "type_chars e speed [] s = (None, s)"
| "type_chars e speed (ch # rest) s =
     (case is_set e s of
        (True, s1) \<Rightarrow> (Some Stopped, s1)
      | (False, s1) \<Rightarrow>
          (case emit e (char_key ch) s1 of
             Inl msg \<Rightarrow> (Some (Raised msg), s1)
           | Inr s2 \<Rightarrow>
               (case keystroke_sleep e speed 0 s2 of
                  (True, s3) \<Rightarrow> (Some Stopped, s3)
                | (False, s3) \<Rightarrow> type_chars e speed rest s3)))"

text \<open>
  The loop \<open>for li, line in enumerate(lines)\<close>.  The test \<open>li < len(lines) - 1\<close> holds exactly
  when lines remain after the current one.
\<close>

fun type_lines :: "env \<Rightarrow> rat \<Rightarrow> string list \<Rightarrow> wstate \<Rightarrow> exit option \<times> wstate" where
  "type_lines e speed [] s = (None, s)"
| "type_lines e speed (line # rest) s =
     (case is_set e s of
        (True, s1) \<Rightarrow> (Some Stopped, s1)
      | (False, s1) \<Rightarrow>
          (case type_chars e speed line s1 of
             (Some x, s2) \<Rightarrow> (Some x, s2)
           | (None, s2) \<Rightarrow>
               (if rest \<noteq> [] then
                  (case emit e (Press ''enter'') s2 of
                     Inl msg \<Rightarrow> (Some (Raised msg), s2)
                   | Inr s3 \<Rightarrow>
                       (case newline_sleep e (max (1 / 1000) (speed * (6 / 10))) 0 s3 of
                          (True, s4) \<Rightarrow> (Some Stopped, s4)
                        | (False, s4) \<Rightarrow> type_lines e speed rest s4))
                else type_lines e speed rest s2)))"

text \<open>The informational report of the foreground process.\<close>

definition focus_report :: "env \<Rightarrow> TypingWorker \<Rightarrow> signal list" where
  "focus_report e w =
     (if \<not> tw_type_any_window w \<and> win32_available e then
        (case focus_query e of
           Some name \<Rightarrow> [Progress (''Typing into process: '' @ name)]
         | None \<Rightarrow> [])
      else [])"

text \<open>\<open>TypingWorker.run\<close>: the signals emitted, in order, and the final state with its trace.\<close>

definition run :: "env \<Rightarrow> TypingWorker \<Rightarrow> signal list \<times> wstate" where
  "run e w =
     (let txt = preformat (tw_language w) (tw_text w);
          starting = [Progress (''Starting in '' @ format_3f e (tw_start_delay w)
                        @ '' s. Click in target window.'')]
      in case countdown e (tw_start_delay w) 0 \<lparr>checks = 0, emits = 0, trace = []\<rparr> of
           (True, s1) \<Rightarrow>
             (starting @ [Finished ''Stopped before typing (user requested stop).''], s1)
         | (False, s1) \<Rightarrow>
             (case type_lines e (tw_speed w) (str_split (CHR 0x0A) txt) s1 of
                (Some Stopped, s2) \<Rightarrow>
                  (starting @ focus_report e w @ [Finished ''Stopped by user during typing.''], s2)
              | (Some (Raised msg), s2) \<Rightarrow>
                  (starting @ focus_report e w @ [Error (''Typing error: '' @ msg)], s2)
              | (None, s2) \<Rightarrow>
                  (starting @ focus_report e w @ [Finished ''Typing completed successfully.''], s2)))"

text \<open>Observations on a trace: the keys sent, and each key with the time slept after it.\<close>

fun keys_of :: "effect list \<Rightarrow> key_event list" where
  "keys_of [] = []"
| "keys_of (Key k # es) = k # keys_of es"
| "keys_of (Sleep d # es) = keys_of es"



section \<open>typer.py: AutoTyperWindow\<close>

text \<open>
  The part of the window's state that the handlers read and write.  \<open>workers\<close> lists the
  workers handed to a thread so far, \<open>message_boxes\<close> the texts of the message boxes shown, and
  \<open>register_calls\<close> counts the calls of \<open>keyboard.GlobalHotKeys\<close>.  The time stamp that
  \<open>_set_status\<close> puts before a message is left out.
\<close>

datatype trigger = StartTrigger | StopTrigger

record listener =
  bindings :: "(string \<times> trigger) list"
  listening :: bool


record AutoTyperWindow =
  is_typing :: bool
  stop_event :: bool
  status_label :: string
  ui_running :: bool
  message_boxes :: "string list"
  text_edit :: string
  typing_speed :: rat
  lang_combo :: string
  delay_input :: rat
  any_window_checkbox :: bool
  start_hotkey_input :: string
  stop_hotkey_input :: string
  hotkey_enable_cb :: bool
  start_hotkey :: string
  stop_hotkey :: string
  hotkeys_enabled :: bool
  hotkey_listener :: "listener option"
  register_calls :: nat
  workers :: "TypingWorker list"

definition start_typing :: "string \<Rightarrow> AutoTyperWindow \<Rightarrow> AutoTyperWindow" where
  "start_typing txt w =
     w\<lparr>is_typing := True, status_label := ''Preparing to type...'', ui_running := True,
       stop_event := False,
       workers := workers w
         @ [TypingWorker_init txt (typing_speed w) (lang_combo w) (delay_input w)
              (any_window_checkbox w)]\<rparr>"

definition on_start_clicked :: "AutoTyperWindow \<Rightarrow> AutoTyperWindow" where
  "on_start_clicked w =
     (if is_typing w then w\<lparr>status_label := ''Typing already in progress.''\<rparr>
      else if str_strip (text_edit w) = [] then
        w\<lparr>message_boxes := message_boxes w @ [''Please enter some text to type.'']\<rparr>
      else start_typing (text_edit w) (w\<lparr>stop_event := False\<rparr>))"

definition on_stop_clicked :: "AutoTyperWindow \<Rightarrow> AutoTyperWindow" where
  "on_stop_clicked w =
     (if is_typing w then w\<lparr>stop_event := True, status_label := ''Stopping...''\<rparr>
      else w\<lparr>status_label := ''No typing in progress.''\<rparr>)"

definition handle_typing_finished :: "string \<Rightarrow> AutoTyperWindow \<Rightarrow> AutoTyperWindow" where
  "handle_typing_finished msg w =
     w\<lparr>is_typing := False, status_label := msg, ui_running := False, stop_event := False\<rparr>"

definition handle_typing_error :: "string \<Rightarrow> AutoTyperWindow \<Rightarrow> AutoTyperWindow" where
  "handle_typing_error err w =
     w\<lparr>is_typing := False, status_label := err, ui_running := False, stop_event := False,
       message_boxes := message_boxes w @ [err]\<rparr>"

text \<open>The slots that \<open>start_typing\<close> connects to the three signals of the worker.\<close>

fun deliver :: "signal \<Rightarrow> AutoTyperWindow \<Rightarrow> AutoTyperWindow" where
  "deliver (Progress msg) w = w\<lparr>status_label := msg\<rparr>"
| "deliver (Finished msg) w = handle_typing_finished msg w"
| "deliver (Error err) w = handle_typing_error err w"

fun deliver_all :: "signal list \<Rightarrow> AutoTyperWindow \<Rightarrow> AutoTyperWindow" where
  "deliver_all [] w = w"
| "deliver_all (sg # sgs) w = deliver_all sgs (deliver sg w)"







section \<open>auto\_typer.py: ModernAutoTyper and HotkeyDialog\<close>

text \<open>
  \<open>mat_after_queue\<close> holds the callbacks scheduled by \<open>root.after(1000, ...)\<close> and not yet run,
  each a call of \<open>countdown_timer\<close> with its two arguments; \<open>mat_threads\<close> lists the texts for
  which \<open>begin_typing\<close> started a thread.
\<close>

record formats =
  format_repr :: "rat \<Rightarrow> string"
  format_1f :: "rat \<Rightarrow> string"

record ModernAutoTyper =
  mat_is_typing :: bool
  mat_status_var :: string
  mat_message_boxes :: "string list"
  mat_text_area :: string
  mat_start_delay :: rat
  mat_start_hotkey :: string
  mat_stop_hotkey :: string
  mat_hotkey_var :: string
  mat_hotkeys_enabled :: bool
  mat_after_queue :: "(rat \<times> string) list"
  mat_threads :: "string list"

definition mat_begin_typing :: "string \<Rightarrow> ModernAutoTyper \<Rightarrow> ModernAutoTyper" where
  "mat_begin_typing txt m =
     m\<lparr>mat_is_typing := True,
       mat_status_var := ''Typing in progress... Press Stop hotkey to cancel'',
       mat_threads := mat_threads m @ [txt]\<rparr>"

definition mat_countdown_timer ::
  "formats \<Rightarrow> rat \<Rightarrow> string \<Rightarrow> ModernAutoTyper \<Rightarrow> ModernAutoTyper" where
  "mat_countdown_timer fm delay txt m =
     (if delay > 0 then
        m\<lparr>mat_status_var := ''Starting in '' @ format_1f fm delay
              @ '' seconds... Click in target window!'',
          mat_after_queue := mat_after_queue m @ [(delay - 1, txt)]\<rparr>
      else mat_begin_typing txt m)"

definition mat_start_typing :: "formats \<Rightarrow> ModernAutoTyper \<Rightarrow> ModernAutoTyper" where
  "mat_start_typing fm m =
     (let txt = str_strip (mat_text_area m) in
      if txt = [] then
        m\<lparr>mat_message_boxes := mat_message_boxes m @ [''Please enter some text to type!'']\<rparr>
      else if mat_is_typing m then
        m\<lparr>mat_message_boxes := mat_message_boxes m @ [''Typing is already in progress!'']\<rparr>
      else
        (let delay_seconds = mat_start_delay m in
         mat_countdown_timer fm delay_seconds txt
           (m\<lparr>mat_status_var := ''Starting in '' @ format_repr fm delay_seconds
                 @ '' seconds... Click in target window!''\<rparr>)))"

text \<open>The Tk main loop runs the oldest pending \<open>after\<close> callback.\<close>

definition mat_run_after :: "formats \<Rightarrow> ModernAutoTyper \<Rightarrow> ModernAutoTyper" where
  "mat_run_after fm m =
     (case mat_after_queue m of
        [] \<Rightarrow> m
      | (delay, txt) # rest \<Rightarrow> mat_countdown_timer fm delay txt (m\<lparr>mat_after_queue := rest\<rparr>))"

definition mat_stop_typing :: "ModernAutoTyper \<Rightarrow> ModernAutoTyper" where
  "mat_stop_typing m =
     (if mat_is_typing m then m\<lparr>mat_is_typing := False, mat_status_var := ''Stopped by user''\<rparr>
      else m\<lparr>mat_status_var := ''No typing in progress''\<rparr>)"

text \<open>
  The typing thread.  It polls the attribute \<open>is_typing\<close>, which the main thread clears on a
  stop request: here \<open>stop_flag e k\<close> says that the \<open>k\<close>-th read of the run found it false.
  \<open>time.sleep\<close> raises on a negative argument.
\<close>

definition py_sleep :: "rat \<Rightarrow> wstate \<Rightarrow> string + wstate" where
  "py_sleep d s = (if d < 0 then Inl ''sleep length must be non-negative'' else Inr (sleep d s))"

definition mat_check_window_focus :: "bool \<Rightarrow> bool" where
  "mat_check_window_focus prevent_window_check = (if prevent_window_check then True else True)"

text \<open>The loop \<open>for char in line\<close>; \<open>Some msg\<close> is an exception, \<open>None\<close> the end or a break.\<close>

fun mat_type_chars :: "env \<Rightarrow> rat \<Rightarrow> string \<Rightarrow> wstate \<Rightarrow> string option \<times> wstate" where
  "mat_type_chars e speed [] s = (None, s)"
| "mat_type_chars e speed (ch # rest) s =
     (case is_set e s of
        (True, s1) \<Rightarrow> (None, s1)
      | (False, s1) \<Rightarrow>
          (if ch = CHR 0x09 then
             (case emit e (Press ''tab'') s1 of
                Inl msg \<Rightarrow> (Some msg, s1)
              | Inr s2 \<Rightarrow>
                  (case py_sleep (speed * (5 / 10)) s2 of
                     Inl msg \<Rightarrow> (Some msg, s2)
                   | Inr s3 \<Rightarrow> mat_type_chars e speed rest s3))
           else
             (case emit e (Write ch) s1 of
                Inl msg \<Rightarrow> (Some msg, s1)
              | Inr s2 \<Rightarrow>
                  (case py_sleep speed s2 of
                     Inl msg \<Rightarrow> (Some msg, s2)
                   | Inr s3 \<Rightarrow> mat_type_chars e speed rest s3))))"

text \<open>
  The loop over the lines.  A break of the inner loop does not leave the outer one: the
  \<open>enter\<close> of the line is still pressed, and the outer test ends the run at the next line.
\<close>

fun mat_type_lines ::
  "env \<Rightarrow> rat \<Rightarrow> bool \<Rightarrow> string list \<Rightarrow> wstate \<Rightarrow> string option \<times> wstate" where
  "mat_type_lines e speed pwc [] s = (None, s)"
| "mat_type_lines e speed pwc (line # rest) s =
     (case is_set e s of
        (True, s1) \<Rightarrow> (None, s1)
      | (False, s1) \<Rightarrow>
          (if \<not> pwc \<and> \<not> mat_check_window_focus pwc then (None, s1)
           else
             (case mat_type_chars e speed line s1 of
                (Some msg, s2) \<Rightarrow> (Some msg, s2)
              | (None, s2) \<Rightarrow>
                  (if rest \<noteq> [] then
                     (case emit e (Press ''enter'') s2 of
                        Inl msg \<Rightarrow> (Some msg, s2)
                      | Inr s3 \<Rightarrow>
                          (case py_sleep (speed * (8 / 10)) s3 of
                             Inl msg \<Rightarrow> (Some msg, s3)
                           | Inr s4 \<Rightarrow> mat_type_lines e speed pwc rest s4))
                   else mat_type_lines e speed pwc rest s2))))"

definition mat_type_normal_text ::
  "env \<Rightarrow> string \<Rightarrow> rat \<Rightarrow> bool \<Rightarrow> string \<Rightarrow> wstate \<Rightarrow> string option \<times> wstate" where
  "mat_type_normal_text e lang speed pwc txt s =
     mat_type_lines e speed pwc (str_split (CHR 0x0A) (mat_preformat lang txt)) s"

text \<open>
  \<open>type_text\<close>: the status messages it schedules, the value of \<open>is_typing\<close> when it returns
  (set in the \<open>finally\<close> clause), and the final state with the trace.
\<close>

definition mat_type_text ::
  "env \<Rightarrow> string \<Rightarrow> rat \<Rightarrow> bool \<Rightarrow> string \<Rightarrow> string list \<times> bool \<times> wstate" where
  "mat_type_text e lang speed pwc txt =
     (case mat_type_normal_text e lang speed pwc txt \<lparr>checks = 0, emits = 0, trace = []\<rparr> of
        (None, s1) \<Rightarrow>
          (case is_set e s1 of
             (False, s2) \<Rightarrow> ([''Typing completed successfully!''], False, s2)
           | (True, s2) \<Rightarrow> ([], False, s2))
      | (Some msg, s1) \<Rightarrow> ([''Error: '' @ msg], False, s1))"

text \<open>\<open>HotkeyDialog.ok_clicked\<close>: the new pair of hotkeys, or the text of the error box.\<close>

definition hkd_ok_clicked :: "string \<Rightarrow> string \<Rightarrow> string + string \<times> string" where
  "hkd_ok_clicked start_var stop_var =
     (let start = str_lower (str_strip start_var);
          stop = str_lower (str_strip stop_var)
      in if start = [] \<or> stop = [] then Inl ''Please enter both hotkeys!''
         else if start = stop then Inl ''Start and stop hotkeys must be different!''
         else Inr (''<'' @ str_join ''>+<'' (str_split (CHR ''+'') start) @ ''>'',
                   ''<'' @ str_join ''>+<'' (str_split (CHR ''+'') stop) @ ''>''))"


section \<open>Reference functions for the statements\<close>

text \<open>An environment in which nobody asks for a stop and pyautogui never raises.\<close>

definition quiet_env :: env where
  "quiet_env = \<lparr>stop_flag = (\<lambda>k. False), emit_raises = (\<lambda>k. None), win32_available = False,
                focus_query = None, format_3f = (\<lambda>r. [])\<rparr>"

text \<open>The number of tests of the stop flag that the countdown makes when it is not stopped.\<close>

definition countdown_checks :: "rat \<Rightarrow> rat \<Rightarrow> nat" where
  "countdown_checks start_delay waited = nat \<lceil>(start_delay - waited) * 20\<rceil>"

text \<open>The steps of the pause after a keystroke when it is not stopped.\<close>

function sleep_steps :: "rat \<Rightarrow> rat \<Rightarrow> rat list" where
  "sleep_steps speed slept =
     (if slept < speed then
        (let step = min (1 / 100) (speed - slept) in step # sleep_steps speed (slept + step))
      else [])"
  by pat_completeness auto
termination
proof (relation "measure (\<lambda>(speed, slept). nat \<lceil>(speed - slept) * 100\<rceil>)")
  show "wf (measure (\<lambda>(speed, slept). nat \<lceil>(speed - slept) * 100\<rceil>))"
    by simp
next
  fix speed slept step :: rat
  assume lt: "slept < speed" and step: "step = min (1 / 100) (speed - slept)"
  have pos: "0 < \<lceil>(speed - slept) * 100\<rceil>"
    using lt by simp
  have "\<lceil>(speed - (slept + step)) * 100\<rceil> < \<lceil>(speed - slept) * 100\<rceil>"
  proof (cases "1 / 100 \<le> speed - slept")
    case True
    then have "step = 1 / 100" using step by simp
    then have "(speed - (slept + step)) * 100 = (speed - slept) * 100 - 1"
      by (simp add: algebra_simps)
    then have "\<lceil>(speed - (slept + step)) * 100\<rceil> = \<lceil>(speed - slept) * 100\<rceil> - 1"
      by (simp only: ceiling_diff_one)
    then show ?thesis by simp
  next
    case False
    then have "step = speed - slept" using step by simp
    then have "(speed - (slept + step)) * 100 = 0" by simp
    then show ?thesis using pos by simp
  qed
  then show "((speed, slept + step), (speed, slept))
      \<in> measure (\<lambda>(speed, slept). nat \<lceil>(speed - slept) * 100\<rceil>)"
    using pos by simp
qed

text \<open>The trace of a line, and of a list of lines, typed by \<open>TypingWorker.run\<close> without a stop.\<close>

definition line_trace :: "rat \<Rightarrow> string \<Rightarrow> effect list" where
  "line_trace speed line =
     concat (map (\<lambda>ch. Key (char_key ch) # map Sleep (sleep_steps speed 0)) line)"

fun lines_trace :: "rat \<Rightarrow> string list \<Rightarrow> effect list" where
  "lines_trace speed [] = []"
| "lines_trace speed [l] = line_trace speed l"
| "lines_trace speed (l # l' # ls) =
     line_trace speed l
     @ Key (Press ''enter'')
       # replicate (nat \<lceil>max (1 / 1000) (speed * (6 / 10)) * 100\<rceil>) (Sleep (1 / 100))
     @ lines_trace speed (l' # ls)"

text \<open>
  \<open>join_map f x\<close> maps the characters of every line by \<open>f\<close> and puts \<open>x\<close> after every line but
  the last.
\<close>

fun join_map :: "(char \<Rightarrow> 'a) \<Rightarrow> 'a \<Rightarrow> string list \<Rightarrow> 'a list" where
  "join_map f x [] = []"
| "join_map f x [l] = map f l"
| "join_map f x (l # l' # ls) = map f l @ x # join_map f x (l' # ls)"

text \<open>The keys for a list of lines: \<open>enter\<close> after every line but the last.\<close>

definition key_lines :: "string list \<Rightarrow> key_event list" where
  "key_lines ls = join_map char_key (Press ''enter'') ls"

text \<open>The key for one character of the formatted text.\<close>

definition text_key :: "char \<Rightarrow> key_event" where
  "text_key ch = (if ch = CHR 0x0A then Press ''enter'' else char_key ch)"




text \<open>Renderings of floats that produce no text, for the statements about concrete runs.\<close>

definition plain_formats :: formats where
  "plain_formats = \<lparr>format_repr = (\<lambda>r. []), format_1f = (\<lambda>r. [])\<rparr>"

text \<open>A ModernAutoTyper at rest, as \<open>__init__\<close> leaves it, with the given text and start delay.\<close>

definition mat_idle :: "string \<Rightarrow> rat \<Rightarrow> ModernAutoTyper" where
  "mat_idle txt delay =
     \<lparr>mat_is_typing = False, mat_status_var = ''Ready'', mat_message_boxes = [],
      mat_text_area = txt, mat_start_delay = delay, mat_start_hotkey = ''<ctrl>+<shift>+s'',
      mat_stop_hotkey = ''<ctrl>+<shift>+x'',
      mat_hotkey_var = ''Start: Ctrl+Shift+S | Stop: Ctrl+Shift+X'', mat_hotkeys_enabled = True,
      mat_after_queue = [], mat_threads = []\<rparr>"


section \<open>Properties of the string primitives\<close>

lemma str_split_not_Nil: "str_split d s \<noteq> []"
  by (induction s) (auto split: list.splits)

lemma str_split_join:
  "ls \<noteq> [] \<Longrightarrow> \<forall>l \<in> set ls. d \<notin> set l \<Longrightarrow> str_split d (str_join [d] ls) = ls"
proof (induction "[d]" ls rule: str_join.induct)
  case 1
  then show ?case by simp
next
  case (2 x)
  then show ?case
    by (induction x) (auto split: list.splits simp: str_split_not_Nil)
next
  case (3 x y ys)
  have tail: "str_split d (str_join [d] (y # ys)) = y # ys"
    using 3 by simp
  from 3(3) have "d \<notin> set x" by simp
  then show ?case
    using tail by (induction x) (auto split: list.splits)
qed

lemma str_join_split: "str_join [d] (str_split d s) = s"
proof (induction s)
  case Nil
  then show ?case by simp
next
  case (Cons c cs)
  show ?case
  proof (cases "c = d")
    case True
    then show ?thesis using Cons
      by (cases "str_split d cs") (auto simp: str_split_not_Nil)
  next
    case False
    obtain w ws where sp: "str_split d cs = w # ws"
      using str_split_not_Nil by (cases "str_split d cs") auto
    then show ?thesis using Cons False
      by (cases ws) auto
  qed
qed

lemma str_splitlines_no_break:
  "l \<in> set (str_splitlines s) \<Longrightarrow> x \<in> set l \<Longrightarrow> \<not> is_linebreak x"
proof (induction s arbitrary: l rule: str_splitlines.induct)
  case 1
  then show ?case by simp
next
  case (2 c)
  then show ?case by (auto split: if_splits)
next
  case (3 c d ds)
  then show ?case
    by (fastforce split: if_splits list.splits)
qed

lemma set_str_rstrip: "set (str_rstrip l) \<subseteq> set l"
  unfolding str_rstrip_def using set_dropWhileD by fastforce

lemma str_rstrip_decomp:
  "\<exists>ws. l = str_rstrip l @ ws \<and> (\<forall>c \<in> set ws. isspace c)"
proof -
  have "rev l = takeWhile isspace (rev l) @ dropWhile isspace (rev l)" by simp
  then have "l = rev (dropWhile isspace (rev l)) @ rev (takeWhile isspace (rev l))"
    by (metis rev_append rev_rev_ident)
  moreover have "\<forall>c \<in> set (rev (takeWhile isspace (rev l))). isspace c"
    by (auto dest: set_takeWhileD)
  ultimately show ?thesis unfolding str_rstrip_def by blast
qed

lemma str_rstrip_last:
  "str_rstrip l \<noteq> [] \<Longrightarrow> \<not> isspace (last (str_rstrip l))"
  unfolding str_rstrip_def
  by (metis (full_types) dropWhile_eq_Nil_conv hd_dropWhile last_rev rev_is_Nil_conv)

lemma str_rstrip_leading:
  assumes "\<exists>c \<in> set l. \<not> isspace c"
  shows "takeWhile isspace (str_rstrip l) = takeWhile isspace l"
proof -
  obtain ws where ws: "l = str_rstrip l @ ws" "\<forall>c \<in> set ws. isspace c"
    using str_rstrip_decomp by blast
  from assms ws obtain c where c: "c \<in> set (str_rstrip l)" "\<not> isspace c"
    by (metis Un_iff set_append)
  have "takeWhile isspace (str_rstrip l @ ws) = takeWhile isspace (str_rstrip l)"
    using c by (meson takeWhile_append1)
  with ws(1) show ?thesis by simp
qed

section \<open>Formatters\<close>

lemma mat_format_lines_filter:
  "concat (map mat_format_line ls) =
     map (\<lambda>l. replicate (length l - length (str_lstrip l)) (CHR '' '') @ str_strip l)
       (filter (\<lambda>l. str_strip l \<noteq> []) ls)"
  by (induction ls) (auto simp: mat_format_line_def Let_def)

lemma preformat_code:
  "language \<in> {''python'', ''c++'', ''java'', ''javascript'', ''c#''} \<Longrightarrow>
   preformat language txt = str_join [CHR 0x0A] (map str_rstrip (str_splitlines txt))"
  by (auto simp: preformat_def format_python_def format_c_style_def)

lemma mat_preformat_code:
  "language \<in> {''python'', ''c++'', ''java'', ''javascript'', ''c#''} \<Longrightarrow>
   mat_preformat language txt =
     str_join [CHR 0x0A] (concat (map mat_format_line (str_split (CHR 0x0A) txt)))"
  by (auto simp: mat_preformat_def mat_format_python_code_def mat_format_generic_code_def
      mat_format_cpp_code_def mat_format_java_code_def mat_format_javascript_code_def
      mat_format_csharp_code_def)

lemma is_linebreak_LF: "is_linebreak (CHR 0x0A)"
  by (simp add: is_linebreak_def)

lemma split_formatted_lines:
  assumes "str_splitlines txt \<noteq> []"
  shows "str_split (CHR 0x0A) (str_join [CHR 0x0A] (map str_rstrip (str_splitlines txt)))
           = map str_rstrip (str_splitlines txt)"
proof (rule str_split_join)
  show "map str_rstrip (str_splitlines txt) \<noteq> []" using assms by simp
  show "\<forall>l\<in>set (map str_rstrip (str_splitlines txt)). CHR 0x0A \<notin> set l"
  proof
    fix l assume "l \<in> set (map str_rstrip (str_splitlines txt))"
    then obtain l0 where l0: "l0 \<in> set (str_splitlines txt)" "l = str_rstrip l0" by auto
    show "CHR 0x0A \<notin> set l"
    proof
      assume "CHR 0x0A \<in> set l"
      then have "CHR 0x0A \<in> set l0" using l0(2) set_str_rstrip by blast
      then show False using str_splitlines_no_break [OF l0(1)] is_linebreak_LF by blast
    qed
  qed
qed

text \<open>
  Claim C7 (as amended).  In \<open>typer.py\<close> every code language (python, c++, java, javascript,
  c#) gets one and the same transform: the text is cut by \<open>splitlines\<close>, trailing whitespace is
  stripped from every line, and the lines are joined by a newline; no line is removed, what is
  stripped is whitespace only, and a line with a non-blank character keeps its leading
  whitespace.  In \<open>auto_typer.py\<close> the five code languages also share one transform, but that one
  omits every whitespace-only line and replaces the leading whitespace of a line by as many
  blanks.  The formatters are total functions on strings.
\<close>

theorem code_formatters_transform:
  assumes "language \<in> {''python'', ''c++'', ''java'', ''javascript'', ''c#''}"
  shows "preformat language txt = str_join [CHR 0x0A] (map str_rstrip (str_splitlines txt))
       \<and> (str_splitlines txt \<noteq> [] \<longrightarrow>
            str_split (CHR 0x0A) (preformat language txt) = map str_rstrip (str_splitlines txt))
       \<and> (\<forall>l. \<exists>ws. l = str_rstrip l @ ws \<and> (\<forall>c \<in> set ws. isspace c))
       \<and> (\<forall>l. str_rstrip l \<noteq> [] \<longrightarrow> \<not> isspace (last (str_rstrip l)))
       \<and> (\<forall>l. (\<exists>c \<in> set l. \<not> isspace c) \<longrightarrow>
                 takeWhile isspace (str_rstrip l) = takeWhile isspace l)
       \<and> mat_preformat language txt =
            str_join [CHR 0x0A]
              (map (\<lambda>l. replicate (length l - length (str_lstrip l)) (CHR '' '') @ str_strip l)
                 (filter (\<lambda>l. str_strip l \<noteq> []) (str_split (CHR 0x0A) txt)))"
proof -
  have a: "preformat language txt = str_join [CHR 0x0A] (map str_rstrip (str_splitlines txt))"
    using assms by (rule preformat_code)
  have b: "str_splitlines txt \<noteq> [] \<longrightarrow>
            str_split (CHR 0x0A) (preformat language txt) = map str_rstrip (str_splitlines txt)"
    using a split_formatted_lines by simp
  have c: "mat_preformat language txt =
            str_join [CHR 0x0A]
              (map (\<lambda>l. replicate (length l - length (str_lstrip l)) (CHR '' '') @ str_strip l)
                 (filter (\<lambda>l. str_strip l \<noteq> []) (str_split (CHR 0x0A) txt)))"
    using mat_preformat_code [OF assms] mat_format_lines_filter by simp
  show ?thesis
    using a b c str_rstrip_decomp str_rstrip_last str_rstrip_leading by blast
qed

lemmas str_eval = str_strip_def str_lstrip_def str_rstrip_def isspace_def str_lower_def
  char_lower_def char_upper_def is_linebreak_def

text \<open>Claim C7, witness: a c++ text with trailing blanks, an empty line and a final newline.\<close>

theorem code_formatters_transform_witness:
  "''c++'' \<in> {''python'', ''c++'', ''java'', ''javascript'', ''c#''}
   \<and> preformat ''c++'' ''if x:  \<newline>\<newline>  y = 1 \<newline>'' = ''if x:\<newline>\<newline>  y = 1''
   \<and> str_splitlines ''if x:  \<newline>\<newline>  y = 1 \<newline>'' = [''if x:  '', [], ''  y = 1 '']
   \<and> str_split (CHR 0x0A) (preformat ''c++'' ''if x:  \<newline>\<newline>  y = 1 \<newline>'')
       = [''if x:'', [], ''  y = 1'']
   \<and> mat_preformat ''c++'' ''if x:  \<newline>\<newline>  y = 1 \<newline>'' = ''if x:\<newline>  y = 1''"
  using code_formatters_transform [of "''c++''" "''if x:  \<newline>\<newline>  y = 1 \<newline>''"]
  by (simp add: str_eval)

text \<open>
  Claim C7 as stated (no line removed) fails for \<open>format_python_code\<close> of \<open>auto_typer.py\<close>: of the
  three lines of the input only two are left.
\<close>

theorem mat_format_python_code_drops_blank_line:
  "mat_format_python_code ''a\<newline>\<newline>b'' = ''a\<newline>b''
   \<and> length (str_split (CHR 0x0A) ''a\<newline>\<newline>b'') = 3
   \<and> length (str_split (CHR 0x0A) (mat_format_python_code ''a\<newline>\<newline>b'')) = 2"
  by (simp add: mat_format_python_code_def mat_format_line_def str_eval)

section \<open>Hotkey strings\<close>

text \<open>
  Claim C6 (as amended).  \<open>to_pynput_hotkey\<close> raises \<open>ValueError\<close> exactly when every token between
  the \<open>+\<close> signs is empty once its surrounding whitespace is removed; this covers the empty
  input and the input \<open>+\<close>.  Empty tokens are dropped before the key is chosen.
\<close>

theorem to_pynput_hotkey_raises_iff:
  "((\<exists>msg. to_pynput_hotkey hk_text = Inl (ValueError msg))
      \<longleftrightarrow> (\<forall>p \<in> set (str_split (CHR ''+'') hk_text). str_strip p = []))
   \<and> to_pynput_hotkey [] = Inl (ValueError ''Empty hotkey'')
   \<and> to_pynput_hotkey ''+'' = Inl (ValueError ''Empty hotkey'')"
  by (auto simp: to_pynput_hotkey_def hotkey_parts_def Let_def filter_empty_conv str_strip_def
      str_lstrip_def str_rstrip_def)

text \<open>Claim C6, witness: the input \<open>" + "\<close>, whose two tokens are blank.\<close>

theorem to_pynput_hotkey_raises_iff_witness:
  "str_split (CHR ''+'') '' + '' = ['' '', '' ''] \<and> str_strip '' '' = []
   \<and> (\<exists>msg. to_pynput_hotkey '' + '' = Inl (ValueError msg))"
  using to_pynput_hotkey_raises_iff [of "'' + ''"]
  by (simp add: str_eval)

text \<open>
  Claim C6 as stated fails at \<open>ctrl+\<close>: the empty key token is dropped and \<open>ctrl\<close> is returned as
  a bare key.
\<close>

theorem to_pynput_hotkey_trailing_plus:
  "to_pynput_hotkey ''ctrl+'' = Inr ''ctrl''"
  by (simp add: to_pynput_hotkey_def hotkey_parts_def str_eval)

text \<open>
  Claim C9 at the default start hotkey.  In \<open>auto_typer.py\<close> the dialog puts every token of
  \<open>ctrl+shift+s\<close> in angle brackets, and \<open>format_hotkey_for_display\<close> capitalizes the string it
  is given as a whole, so only the first token gets its capital, for the result of the dialog
  as for the built-in default; \<open>pretty_hotkey_display\<close> of \<open>typer.py\<close> capitalizes every token.
\<close>

theorem mat_format_hotkey_for_display_default:
  "hkd_ok_clicked ''ctrl+shift+s'' ''ctrl+shift+x''
     = Inr (''<ctrl>+<shift>+<s>'', ''<ctrl>+<shift>+<x>'')
   \<and> mat_format_hotkey_for_display ''<ctrl>+<shift>+<s>'' = ''Ctrl+shift+s''
   \<and> mat_format_hotkey_for_display ''<ctrl>+<shift>+s'' = ''Ctrl+shift+s''
   \<and> pretty_hotkey_display ''ctrl+shift+s'' = ''Ctrl+Shift+S''"
  by code_simp

text \<open>
  The sibling \<open>pretty_hotkey_display\<close> of \<open>typer.py\<close> capitalizes token by token, keeps the
  order of the tokens and does not depend on the case of its input.
\<close>

lemma of_char_lower:
  "(of_char (char_lower c) :: nat) =
     (if 65 \<le> (of_char c :: nat) \<and> (of_char c :: nat) \<le> 90 then of_char c + 32 else of_char c)"
  by (simp add: char_lower_def Let_def)

lemma of_char_upper:
  "(of_char (char_upper c) :: nat) =
     (if 97 \<le> (of_char c :: nat) \<and> (of_char c :: nat) \<le> 122 then of_char c - 32 else of_char c)"
  by (auto simp: char_upper_def Let_def)

lemma char_lower_idem: "char_lower (char_lower c) = char_lower c"
  by (rule of_char_eqI [where ?'a = nat]) (auto simp: of_char_lower)

lemma char_upper_lower: "char_upper (char_lower c) = char_upper c"
  by (rule of_char_eqI [where ?'a = nat]) (auto simp: of_char_lower of_char_upper)

lemma char_lower_plus: "char_lower c = CHR ''+'' \<longleftrightarrow> c = CHR ''+''"
proof
  assume "char_lower c = CHR ''+''"
  then have "(of_char (char_lower c) :: nat) = 43" by simp
  then have "(of_char c :: nat) = 43" by (auto simp: of_char_lower split: if_splits)
  then have "(of_char c :: nat) = of_char (CHR ''+'')" by simp
  then show "c = CHR ''+''" by (rule of_char_eqI)
next
  assume "c = CHR ''+''"
  then show "char_lower c = CHR ''+''" by (simp add: char_lower_def)
qed

lemma char_upper_plus: "char_upper c = CHR ''+'' \<longleftrightarrow> c = CHR ''+''"
proof
  assume "char_upper c = CHR ''+''"
  then have "(of_char (char_upper c) :: nat) = 43" by simp
  then have "(of_char c :: nat) = 43" by (auto simp: of_char_upper split: if_splits)
  then have "(of_char c :: nat) = of_char (CHR ''+'')" by simp
  then show "c = CHR ''+''" by (rule of_char_eqI)
next
  assume "c = CHR ''+''"
  then show "char_upper c = CHR ''+''" by (simp add: char_upper_def)
qed

lemma str_split_map:
  "(\<And>c. f c = d \<longleftrightarrow> c = d) \<Longrightarrow> str_split d (map f s) = map (map f) (str_split d s)"
  by (induction s) (auto split: list.splits)

lemma str_capitalize_lower: "str_capitalize (str_lower t) = str_capitalize t"
  by (cases t) (simp_all add: str_lower_def char_upper_lower char_lower_idem)

lemma pretty_hotkey_display_case_insensitive:
  "pretty_hotkey_display (str_lower hk_text) = pretty_hotkey_display hk_text"
proof -
  have "str_split (CHR ''+'') (str_lower hk_text)
          = map str_lower (str_split (CHR ''+'') hk_text)"
    unfolding str_lower_def by (rule str_split_map) (rule char_lower_plus)
  then show ?thesis
    by (simp add: pretty_hotkey_display_def str_capitalize_lower comp_def)
qed

lemma plus_eq_char_lower: "CHR ''+'' = char_lower c \<longleftrightarrow> c = CHR ''+''"
  using char_lower_plus [of c] by auto

lemma plus_eq_char_upper: "CHR ''+'' = char_upper c \<longleftrightarrow> c = CHR ''+''"
  using char_upper_plus [of c] by auto

lemma plus_notin_capitalize:
  "CHR ''+'' \<notin> set t \<Longrightarrow> CHR ''+'' \<notin> set (str_capitalize t)"
proof (cases t)
  case Nil
  then show ?thesis by simp
next
  case (Cons a list)
  assume notin: "CHR ''+'' \<notin> set t"
  show ?thesis
  proof
    assume "CHR ''+'' \<in> set (str_capitalize t)"
    then have "CHR ''+'' = char_upper a \<or> (\<exists>x \<in> set list. CHR ''+'' = char_lower x)"
      using Cons by (simp add: image_iff)
    then have "a = CHR ''+'' \<or> (\<exists>x \<in> set list. x = CHR ''+'')"
      unfolding plus_eq_char_lower plus_eq_char_upper .
    then show False using notin Cons by auto
  qed
qed

lemma str_split_no_sep: "w \<in> set (str_split d s) \<Longrightarrow> d \<notin> set w"
  by (induction s arbitrary: w) (fastforce split: if_splits list.splits)+

lemma pretty_hotkey_display_tokens:
  "str_split (CHR ''+'') (pretty_hotkey_display hk_text)
     = map str_capitalize (str_split (CHR ''+'') hk_text)"
  unfolding pretty_hotkey_display_def
  by (rule str_split_join) (auto simp: str_split_not_Nil dest!: str_split_no_sep dest: plus_notin_capitalize)

lemma pretty_hotkey_display_example:
  "pretty_hotkey_display ''ctrl+shift+s'' = ''Ctrl+Shift+S''"
  by code_simp

section \<open>The loops of TypingWorker.run\<close>

declare countdown.simps [simp del] keystroke_sleep.simps [simp del] newline_sleep.simps [simp del]
  sleep_steps.simps [simp del]

lemma countdown_checks_0: "\<not> waited < start_delay \<Longrightarrow> countdown_checks start_delay waited = 0"
  by (simp add: countdown_checks_def mult_le_0_iff)

lemma countdown_checks_Suc:
  assumes "waited < start_delay"
  shows "countdown_checks start_delay waited = Suc (countdown_checks start_delay (waited + 1 / 20))"
proof -
  have "(start_delay - (waited + 1 / 20)) * 20 = (start_delay - waited) * 20 - 1"
    by (simp add: algebra_simps)
  then have "\<lceil>(start_delay - (waited + 1 / 20)) * 20\<rceil> = \<lceil>(start_delay - waited) * 20\<rceil> - 1"
    by (simp only: ceiling_diff_one)
  moreover have "0 < \<lceil>(start_delay - waited) * 20\<rceil>"
    using assms by simp
  ultimately have "nat \<lceil>(start_delay - waited) * 20\<rceil>
      = Suc (nat \<lceil>(start_delay - (waited + 1 / 20)) * 20\<rceil>)"
    by linarith
  then show ?thesis
    unfolding countdown_checks_def .
qed

lemma countdown_run:
  "(\<forall>k < countdown_checks start_delay waited. \<not> stop_flag e (checks s + k)) \<Longrightarrow>
   countdown e start_delay waited s =
     (False, s\<lparr>checks := checks s + countdown_checks start_delay waited,
               trace := trace s @ replicate (countdown_checks start_delay waited) (Sleep (1 / 20))\<rparr>)"
proof (induction e start_delay waited s rule: countdown.induct)
  case (1 e start_delay waited s)
  show ?case
  proof (cases "waited < start_delay")
    case False
    then show ?thesis
      by (subst countdown.simps) (simp add: countdown_checks_0)
  next
    case True
    note n = countdown_checks_Suc [OF True]
    have first: "\<not> stop_flag e (checks s)"
      using "1.prems" n by (metis add.right_neutral zero_less_Suc)
    have chk: "(False, s\<lparr>checks := Suc (checks s)\<rparr>) = is_set e s"
      using first by (simp add: is_set_def)
    have rest: "\<forall>k < countdown_checks start_delay (waited + 1 / 20).
        \<not> stop_flag e (checks (sleep (1 / 20) (s\<lparr>checks := Suc (checks s)\<rparr>)) + k)"
    proof (intro allI impI)
      fix k
      assume "k < countdown_checks start_delay (waited + 1 / 20)"
      then have "Suc k < countdown_checks start_delay waited" using n by simp
      then have "\<not> stop_flag e (checks s + Suc k)" using "1.prems" by blast
      then show "\<not> stop_flag e (checks (sleep (1 / 20) (s\<lparr>checks := Suc (checks s)\<rparr>)) + k)"
        by (simp add: sleep_def)
    qed
    have "countdown e start_delay (waited + 1 / 20) (sleep (1 / 20) (s\<lparr>checks := Suc (checks s)\<rparr>))
        = (False, (sleep (1 / 20) (s\<lparr>checks := Suc (checks s)\<rparr>))
            \<lparr>checks := checks (sleep (1 / 20) (s\<lparr>checks := Suc (checks s)\<rparr>))
                 + countdown_checks start_delay (waited + 1 / 20),
             trace := trace (sleep (1 / 20) (s\<lparr>checks := Suc (checks s)\<rparr>))
                 @ replicate (countdown_checks start_delay (waited + 1 / 20)) (Sleep (1 / 20))\<rparr>)"
      by (rule "1.IH" [OF True chk refl rest])
    then show ?thesis
      using True first n
      by (subst countdown.simps) (simp add: is_set_def sleep_def replicate_append_same)
  qed
qed


lemma keystroke_sleep_quiet:
  "(\<forall>k. \<not> stop_flag e k) \<Longrightarrow>
   \<exists>s'. keystroke_sleep e speed slept s = (False, s')
        \<and> trace s' = trace s @ map Sleep (sleep_steps speed slept)"
proof (induction e speed slept s rule: keystroke_sleep.induct)
  case (1 e speed slept s)
  show ?case
  proof (cases "slept < speed")
    case False
    then show ?thesis
      by (subst keystroke_sleep.simps, subst sleep_steps.simps) simp
  next
    case True
    let ?step = "min (1 / 100) (speed - slept)"
    let ?s1 = "s\<lparr>checks := Suc (checks s)\<rparr>"
    have chk: "(False, ?s1) = is_set e s"
      using "1.prems" by (simp add: is_set_def)
    obtain s' where s': "keystroke_sleep e speed (slept + ?step) (sleep ?step ?s1) = (False, s')"
        "trace s' = trace (sleep ?step ?s1) @ map Sleep (sleep_steps speed (slept + ?step))"
      using "1.IH" [OF True chk refl refl "1.prems"] by blast
    have "keystroke_sleep e speed slept s = (False, s')"
      using True "1.prems" s'(1)
      by (subst keystroke_sleep.simps) (simp add: is_set_def Let_def)
    moreover have "trace s' = trace s @ map Sleep (sleep_steps speed slept)"
      using True s'(2)
      by (subst sleep_steps.simps) (simp add: sleep_def Let_def)
    ultimately show ?thesis by blast
  qed
qed

lemma newline_sleep_quiet:
  "(\<forall>k. \<not> stop_flag e k) \<Longrightarrow>
   \<exists>s'. newline_sleep e nl_delay slept s = (False, s')
        \<and> trace s' = trace s @ replicate (nat \<lceil>(nl_delay - slept) * 100\<rceil>) (Sleep (1 / 100))"
proof (induction e nl_delay slept s rule: newline_sleep.induct)
  case (1 e nl_delay slept s)
  show ?case
  proof (cases "slept < nl_delay")
    case False
    then have "nat \<lceil>(nl_delay - slept) * 100\<rceil> = 0"
      by (simp add: mult_le_0_iff)
    then show ?thesis
      using False by (subst newline_sleep.simps) simp
  next
    case True
    let ?s1 = "s\<lparr>checks := Suc (checks s)\<rparr>"
    have chk: "(False, ?s1) = is_set e s"
      using "1.prems" by (simp add: is_set_def)
    obtain s' where s': "newline_sleep e nl_delay (slept + 1 / 100) (sleep (1 / 100) ?s1) = (False, s')"
        "trace s' = trace (sleep (1 / 100) ?s1)
           @ replicate (nat \<lceil>(nl_delay - (slept + 1 / 100)) * 100\<rceil>) (Sleep (1 / 100))"
      using "1.IH" [OF True chk refl "1.prems"] by blast
    have "(nl_delay - (slept + 1 / 100)) * 100 = (nl_delay - slept) * 100 - 1"
      by (simp add: algebra_simps)
    then have "\<lceil>(nl_delay - (slept + 1 / 100)) * 100\<rceil> = \<lceil>(nl_delay - slept) * 100\<rceil> - 1"
      by (simp only: ceiling_diff_one)
    moreover have "0 < \<lceil>(nl_delay - slept) * 100\<rceil>"
      using True by simp
    ultimately have n: "nat \<lceil>(nl_delay - slept) * 100\<rceil>
        = Suc (nat \<lceil>(nl_delay - (slept + 1 / 100)) * 100\<rceil>)"
      by linarith
    have "newline_sleep e nl_delay slept s = (False, s')"
      using True "1.prems" s'(1)
      by (subst newline_sleep.simps) (simp add: is_set_def)
    moreover have "trace s' = trace s @ replicate (nat \<lceil>(nl_delay - slept) * 100\<rceil>) (Sleep (1 / 100))"
      unfolding n using s'(2) by (simp add: sleep_def replicate_append_same)
    ultimately show ?thesis by blast
  qed
qed


lemma sleep_steps_bound: "d \<in> set (sleep_steps speed slept) \<Longrightarrow> 0 < d \<and> d \<le> 1 / 100"
proof (induction speed slept rule: sleep_steps.induct)
  case (1 speed slept)
  show ?case
  proof (cases "slept < speed")
    case False
    then show ?thesis using "1.prems" by (subst (asm) sleep_steps.simps) simp
  next
    case True
    have "d = min (1 / 100) (speed - slept)
        \<or> d \<in> set (sleep_steps speed (slept + min (1 / 100) (speed - slept)))"
      using "1.prems" True by (subst (asm) sleep_steps.simps) (simp add: Let_def)
    then show ?thesis
      using "1.IH" [OF True refl] True by (auto simp: min_def)
  qed
qed

lemma type_chars_quiet:
  assumes ns: "\<forall>k. \<not> stop_flag e k" and nr: "\<forall>k. emit_raises e k = None"
  shows "\<exists>s'. type_chars e speed line s = (None, s') \<and> trace s' = trace s @ line_trace speed line"
proof (induction line arbitrary: s)
  case Nil
  then show ?case by (simp add: line_trace_def)
next
  case (Cons ch rest)
  let ?s1 = "s\<lparr>checks := Suc (checks s)\<rparr>"
  let ?s2 = "?s1\<lparr>emits := Suc (emits ?s1), trace := trace ?s1 @ [Key (char_key ch)]\<rparr>"
  have chk: "is_set e s = (False, ?s1)"
    using ns by (simp add: is_set_def)
  have em: "emit e (char_key ch) ?s1 = Inr ?s2"
    using nr by (simp add: emit_def)
  obtain s3 where s3: "keystroke_sleep e speed 0 ?s2 = (False, s3)"
      "trace s3 = trace ?s2 @ map Sleep (sleep_steps speed 0)"
    using keystroke_sleep_quiet [OF ns] by blast
  obtain s' where s': "type_chars e speed rest s3 = (None, s')"
      "trace s' = trace s3 @ line_trace speed rest"
    using Cons.IH by blast
  have "type_chars e speed (ch # rest) s = (None, s')"
    using s3(1) s'(1) by (simp add: chk em)
  moreover have "trace s' = trace s @ line_trace speed (ch # rest)"
    using s'(2) s3(2) by (simp add: line_trace_def)
  ultimately show ?case by blast
qed

lemma type_lines_quiet:
  assumes ns: "\<forall>k. \<not> stop_flag e k" and nr: "\<forall>k. emit_raises e k = None"
  shows "\<exists>s'. type_lines e speed lines s = (None, s') \<and> trace s' = trace s @ lines_trace speed lines"
proof (induction lines arbitrary: s)
  case Nil
  then show ?case by simp
next
  case (Cons line rest)
  let ?s1 = "s\<lparr>checks := Suc (checks s)\<rparr>"
  have chk: "is_set e s = (False, ?s1)"
    using ns by (simp add: is_set_def)
  obtain s2 where s2: "type_chars e speed line ?s1 = (None, s2)"
      "trace s2 = trace ?s1 @ line_trace speed line"
    using type_chars_quiet [OF ns nr] by blast
  show ?case
  proof (cases rest)
    case Nil
    then show ?thesis by (simp add: chk s2)
  next
    case (Cons l' ls)
    let ?s3 = "s2\<lparr>emits := Suc (emits s2), trace := trace s2 @ [Key (Press ''enter'')]\<rparr>"
    have em: "emit e (Press ''enter'') s2 = Inr ?s3"
      using nr by (simp add: emit_def)
    obtain s4 where s4: "newline_sleep e (max (1 / 1000) (speed * (6 / 10))) 0 ?s3 = (False, s4)"
        "trace s4 = trace ?s3
           @ replicate (nat \<lceil>(max (1 / 1000) (speed * (6 / 10)) - 0) * 100\<rceil>) (Sleep (1 / 100))"
      using newline_sleep_quiet [OF ns] by blast
    obtain s' where s': "type_lines e speed rest s4 = (None, s')"
        "trace s' = trace s4 @ lines_trace speed rest"
      using Cons.IH by blast
    have "type_lines e speed (line # rest) s = (None, s')"
      using Cons s2(1) s4(1) s'(1) by (simp add: chk em)
    moreover have "trace s' = trace s @ lines_trace speed (line # rest)"
      using Cons s'(2) s4(2) s2(2) by simp
    ultimately show ?thesis by blast
  qed
qed

lemma run_quiet:
  assumes ns: "\<forall>k. \<not> stop_flag e k" and nr: "\<forall>k. emit_raises e k = None"
  shows "fst (run e w) =
           [Progress (''Starting in '' @ format_3f e (tw_start_delay w)
              @ '' s. Click in target window.'')]
           @ focus_report e w @ [Finished ''Typing completed successfully.'']"
    and "trace (snd (run e w)) =
           replicate (countdown_checks (tw_start_delay w) 0) (Sleep (1 / 20))
           @ lines_trace (tw_speed w) (str_split (CHR 0x0A) (preformat (tw_language w) (tw_text w)))"
proof -
  let ?s0 = "\<lparr>checks = 0, emits = 0, trace = []\<rparr>"
  let ?n = "countdown_checks (tw_start_delay w) 0"
  let ?s1 = "?s0\<lparr>checks := checks ?s0 + ?n, trace := trace ?s0 @ replicate ?n (Sleep (1 / 20))\<rparr>"
  have cd: "countdown e (tw_start_delay w) 0 ?s0 = (False, ?s1)"
    by (rule countdown_run) (simp add: ns)
  obtain s2 where s2:
      "type_lines e (tw_speed w) (str_split (CHR 0x0A) (preformat (tw_language w) (tw_text w))) ?s1
         = (None, s2)"
      "trace s2 = trace ?s1
         @ lines_trace (tw_speed w) (str_split (CHR 0x0A) (preformat (tw_language w) (tw_text w)))"
    using type_lines_quiet [OF ns nr] by blast
  show "fst (run e w) =
           [Progress (''Starting in '' @ format_3f e (tw_start_delay w)
              @ '' s. Click in target window.'')]
           @ focus_report e w @ [Finished ''Typing completed successfully.'']"
    unfolding run_def Let_def cd using s2(1) by simp
  show "trace (snd (run e w)) =
           replicate (countdown_checks (tw_start_delay w) 0) (Sleep (1 / 20))
           @ lines_trace (tw_speed w) (str_split (CHR 0x0A) (preformat (tw_language w) (tw_text w)))"
    unfolding run_def Let_def cd using s2 by simp
qed

lemma join_map_Cons: "join_map f x ((c # w) # ws) = f c # join_map f x (w # ws)"
  by (cases ws) simp_all

lemma join_map_split:
  "join_map f x (str_split d t) = map (\<lambda>c. if c = d then x else f c) t"
proof (induction t)
  case Nil
  then show ?case by simp
next
  case (Cons c cs)
  obtain w ws where sp: "str_split d cs = w # ws"
    using str_split_not_Nil by (cases "str_split d cs") auto
  show ?case
    using Cons sp by (simp add: join_map_Cons)
qed

lemma keys_of_append: "keys_of (xs @ ys) = keys_of xs @ keys_of ys"
  by (induction xs rule: keys_of.induct) simp_all

lemma keys_of_sleeps: "keys_of (map Sleep ds) = []"
  by (induction ds) simp_all

lemma keys_of_replicate_sleep: "keys_of (replicate n (Sleep d)) = []"
  by (induction n) simp_all

lemma keys_of_line_trace: "keys_of (line_trace speed l) = map char_key l"
  by (induction l) (simp_all add: line_trace_def keys_of_append keys_of_sleeps)

lemma keys_of_lines_trace: "keys_of (lines_trace speed ls) = join_map char_key (Press ''enter'') ls"
  by (induction speed ls rule: lines_trace.induct)
    (simp_all add: keys_of_append keys_of_line_trace keys_of_replicate_sleep)












section \<open>Order of the keys\<close>

lemmas run_eval = run_def TypingWorker_init_def preformat_def format_text_def str_rstrip_chars_def
  is_set_def emit_def sleep_def char_key_def focus_report_def Let_def
  countdown.simps keystroke_sleep.simps newline_sleep.simps

lemma key_lines_split: "key_lines (str_split (CHR 0x0A) t) = map text_key t"
  unfolding key_lines_def join_map_split text_key_def ..

lemma preformat_text_plain:
  "preformat ''text'' ''ab'' = ''ab''" "preformat ''text'' ''a\<newline>b'' = ''a\<newline>b''"
  by (simp_all add: preformat_def format_text_def str_rstrip_chars_def)

text \<open>
  Claim C5.  When no stop is requested and pyautogui does not raise, \<open>TypingWorker.run\<close> sends
  the keys of the formatted text in the order of the text: the characters of each line in
  order, the lines in order, \<open>enter\<close> after every line but the last and none after the last;
  the run ends with the signal of successful completion.  For the text \<open>ab\<close> the keys are
  \<open>a, b\<close>, and for \<open>a\<newline>b\<close> they are \<open>a, enter, b\<close>.
\<close>

theorem run_emits_in_input_order:
  assumes ns: "\<forall>k. \<not> stop_flag e k" and nr: "\<forall>k. emit_raises e k = None"
  shows "keys_of (trace (snd (run e w)))
           = key_lines (str_split (CHR 0x0A) (preformat (tw_language w) (tw_text w)))
       \<and> keys_of (trace (snd (run e w))) = map text_key (preformat (tw_language w) (tw_text w))
       \<and> last (fst (run e w)) = Finished ''Typing completed successfully.''
       \<and> keys_of (trace (snd (run e (TypingWorker_init ''ab'' speed ''text'' start_delay any))))
           = [Write (CHR ''a''), Write (CHR ''b'')]
       \<and> keys_of (trace (snd (run e (TypingWorker_init ''a\<newline>b'' speed ''text'' start_delay any))))
           = [Write (CHR ''a''), Press ''enter'', Write (CHR ''b'')]"
proof -
  have keys: "keys_of (trace (snd (run e w')))
      = key_lines (str_split (CHR 0x0A) (preformat (tw_language w') (tw_text w')))" for w'
    by (simp add: run_quiet(2) [OF ns nr] keys_of_append keys_of_replicate_sleep
        keys_of_lines_trace key_lines_def)
  have flat: "keys_of (trace (snd (run e w'))) = map text_key (preformat (tw_language w') (tw_text w'))"
    for w'
    by (simp only: keys key_lines_split)
  have fin: "last (fst (run e w)) = Finished ''Typing completed successfully.''"
    by (simp add: run_quiet(1) [OF ns nr])
  have ab: "keys_of (trace (snd (run e (TypingWorker_init ''ab'' speed ''text'' start_delay any))))
      = [Write (CHR ''a''), Write (CHR ''b'')]"
    by (simp add: flat TypingWorker_init_def preformat_text_plain text_key_def char_key_def)
  have anb: "keys_of (trace (snd (run e (TypingWorker_init ''a\<newline>b'' speed ''text'' start_delay any))))
      = [Write (CHR ''a''), Press ''enter'', Write (CHR ''b'')]"
    by (simp add: flat TypingWorker_init_def preformat_text_plain text_key_def char_key_def)
  show ?thesis
    using keys flat fin ab anb by blast
qed

text \<open>Claim C5, witness: the quiet environment and the two-line text.\<close>

theorem run_emits_in_input_order_witness:
  "(\<forall>k. \<not> stop_flag quiet_env k) \<and> (\<forall>k. emit_raises quiet_env k = None)
   \<and> keys_of (trace (snd (run quiet_env (TypingWorker_init ''a\<newline>b'' 0 ''text'' 0 True))))
       = [Write (CHR ''a''), Press ''enter'', Write (CHR ''b'')]
   \<and> last (fst (run quiet_env (TypingWorker_init ''a\<newline>b'' 0 ''text'' 0 True)))
       = Finished ''Typing completed successfully.''"
  using run_emits_in_input_order [of quiet_env "TypingWorker_init ''a\<newline>b'' 0 ''text'' 0 True"]
  by (simp add: quiet_env_def)

section \<open>Keys and the sleeps after them\<close>










section \<open>Stop requests during the countdown\<close>






section \<open>The end of a run\<close>

lemma run_signals:
  "\<exists>pre fin m. fst (run e wk) = pre @ [fin] \<and> (fin = Finished m \<or> fin = Error m)"
proof -
  obtain sgs s where r: "run e wk = (sgs, s)"
    by (cases "run e wk")
  obtain b s1 where cd: "countdown e (tw_start_delay wk) 0 \<lparr>checks = 0, emits = 0, trace = []\<rparr> = (b, s1)"
    by (cases "countdown e (tw_start_delay wk) 0 \<lparr>checks = 0, emits = 0, trace = []\<rparr>")
  obtain x s2 where tl: "type_lines e (tw_speed wk)
      (str_split (CHR 0x0A) (preformat (tw_language wk) (tw_text wk))) s1 = (x, s2)"
    by (cases "type_lines e (tw_speed wk)
      (str_split (CHR 0x0A) (preformat (tw_language wk) (tw_text wk))) s1")
  let ?st = "Progress (''Starting in '' @ format_3f e (tw_start_delay wk)
      @ '' s. Click in target window.'')"
  show ?thesis
  proof (cases b)
    case True
    then have "fst (run e wk) = [?st] @ [Finished ''Stopped before typing (user requested stop).'']"
      unfolding run_def Let_def cd by simp
    then show ?thesis by blast
  next
    case False
    note nb = this
    show ?thesis
    proof (cases x)
      case None
      then have "fst (run e wk)
          = ([?st] @ focus_report e wk) @ [Finished ''Typing completed successfully.'']"
        unfolding run_def Let_def cd using nb tl by simp
      then show ?thesis by blast
    next
      case (Some ex)
      show ?thesis
      proof (cases ex)
        case Stopped
        then have "fst (run e wk)
            = ([?st] @ focus_report e wk) @ [Finished ''Stopped by user during typing.'']"
          unfolding run_def Let_def cd using nb tl Some by simp
        then show ?thesis by blast
      next
        case (Raised msg)
        then have "fst (run e wk)
            = ([?st] @ focus_report e wk) @ [Error (''Typing error: '' @ msg)]"
          unfolding run_def Let_def cd using nb tl Some by simp
        then show ?thesis by blast
      qed
    qed
  qed
qed

lemma deliver_all_append: "deliver_all (xs @ ys) w = deliver_all ys (deliver_all xs w)"
  by (induction xs arbitrary: w) simp_all

lemma deliver_final:
  "fin = Finished m \<or> fin = Error m \<Longrightarrow>
   \<not> is_typing (deliver fin w) \<and> \<not> stop_event (deliver fin w) \<and> \<not> ui_running (deliver fin w)"
  by (auto simp: handle_typing_finished_def handle_typing_error_def)

text \<open>
  Claim C1.  Whatever the outcome of a run of \<open>TypingWorker.run\<close> (completion, a stop before or
  during typing, an exception of pyautogui), its last signal is \<open>finished\<close> or \<open>error\<close>, and
  the handler of that signal leaves \<open>is_typing\<close> false and the stop event clear in whatever
  state it finds the window; so they are once the window has handled the signals of the run,
  and a later click on Stop leaves both as they are.  In \<open>auto_typer.py\<close>, \<open>type_text\<close> leaves
  \<open>is_typing\<close> false on every path.
\<close>

theorem run_end_resets_session:
  "(\<exists>pre fin. fst (run e wk) = pre @ [fin]
      \<and> (\<forall>w'. \<not> is_typing (deliver fin w') \<and> \<not> stop_event (deliver fin w')))
   \<and> \<not> is_typing (deliver_all (fst (run e wk)) w)
   \<and> \<not> stop_event (deliver_all (fst (run e wk)) w)
   \<and> \<not> is_typing (on_stop_clicked (deliver_all (fst (run e wk)) w))
   \<and> \<not> stop_event (on_stop_clicked (deliver_all (fst (run e wk)) w))
   \<and> \<not> fst (snd (mat_type_text e lang speed pwc txt))"
proof -
  obtain pre fin m where r: "fst (run e wk) = pre @ [fin]" "fin = Finished m \<or> fin = Error m"
    using run_signals [of e wk] by blast
  have d: "deliver_all (fst (run e wk)) w = deliver fin (deliver_all pre w)"
    by (simp add: r(1) deliver_all_append)
  have a: "\<not> is_typing (deliver_all (fst (run e wk)) w)"
      "\<not> stop_event (deliver_all (fst (run e wk)) w)"
    unfolding d using deliver_final [OF r(2)] by blast+
  have b: "\<not> is_typing (on_stop_clicked (deliver_all (fst (run e wk)) w))"
      "\<not> stop_event (on_stop_clicked (deliver_all (fst (run e wk)) w))"
    using a by (simp_all add: on_stop_clicked_def)
  have c: "\<not> fst (snd (mat_type_text e lang speed pwc txt))"
    by (simp add: mat_type_text_def split: prod.splits option.splits bool.splits)
  have last_signal: "\<exists>pre fin. fst (run e wk) = pre @ [fin]
      \<and> (\<forall>w'. \<not> is_typing (deliver fin w') \<and> \<not> stop_event (deliver fin w'))"
    using r deliver_final [OF r(2)] by blast
  show ?thesis
    using a b c last_signal by blast
qed

section \<open>Construction of the worker\<close>

text \<open>
  Claim C10.  \<open>TypingWorker.__init__\<close> stores \<open>max(0, speed)\<close> and \<open>max(0, start_delay)\<close>, so
  both stored values are non-negative, and a run with a negative speed or a negative start
  delay is the run with the value 0 in its place.
\<close>

theorem TypingWorker_init_clamps:
  "tw_speed (TypingWorker_init txt speed language start_delay any) = max 0 speed
   \<and> tw_start_delay (TypingWorker_init txt speed language start_delay any) = max 0 start_delay
   \<and> 0 \<le> tw_speed (TypingWorker_init txt speed language start_delay any)
   \<and> 0 \<le> tw_start_delay (TypingWorker_init txt speed language start_delay any)
   \<and> (speed < 0 \<longrightarrow>
        run e (TypingWorker_init txt speed language start_delay any)
          = run e (TypingWorker_init txt 0 language start_delay any))
   \<and> (start_delay < 0 \<longrightarrow>
        run e (TypingWorker_init txt speed language start_delay any)
          = run e (TypingWorker_init txt speed language 0 any))"
  by (simp add: TypingWorker_init_def max_def)

text \<open>Claim C10, witness: a speed of -0.5 and a start delay of -3.\<close>

theorem TypingWorker_init_clamps_witness:
  "(- 1 / 2 :: rat) < 0
   \<and> tw_speed (TypingWorker_init ''ab'' (- 1 / 2) ''text'' (- 3) True) = 0
   \<and> tw_start_delay (TypingWorker_init ''ab'' (- 1 / 2) ''text'' (- 3) True) = 0
   \<and> (- 3 :: rat) < 0
   \<and> run quiet_env (TypingWorker_init ''ab'' (- 1 / 2) ''text'' (- 3) True)
       = run quiet_env (TypingWorker_init ''ab'' 0 ''text'' (- 3) True)
   \<and> run quiet_env (TypingWorker_init ''ab'' (- 1 / 2) ''text'' (- 3) True)
       = run quiet_env (TypingWorker_init ''ab'' (- 1 / 2) ''text'' 0 True)
   \<and> trace (snd (run quiet_env (TypingWorker_init ''ab'' (- 1 / 2) ''text'' (- 3) True)))
       = [Key (Write (CHR ''a'')), Key (Write (CHR ''b''))]"
  using TypingWorker_init_clamps [of "''ab''" "- 1 / 2" "''text''" "- 3" True quiet_env]
  by (simp add: run_eval quiet_env_def)

section \<open>Start requests in rapid succession\<close>

lemmas mat_eval = mat_start_typing_def mat_countdown_timer_def mat_begin_typing_def
  mat_run_after_def mat_stop_typing_def mat_idle_def plain_formats_def Let_def str_eval

text \<open>
  Claim C2 at the default start delay of 3 s in \<open>auto_typer.py\<close>: \<open>is_typing\<close> is set only
  when the countdown is over, so a second start request during the countdown passes the test,
  shows no message, and two typing threads are started for the same text.
\<close>

theorem mat_start_twice_starts_two_runs:
  "mat_threads
     (mat_run_after plain_formats (mat_run_after plain_formats (mat_run_after plain_formats
      (mat_run_after plain_formats (mat_run_after plain_formats (mat_run_after plain_formats
        (mat_start_typing plain_formats (mat_start_typing plain_formats (mat_idle ''ab'' 3)))))))))
     = [''ab'', ''ab'']
   \<and> mat_message_boxes
        (mat_start_typing plain_formats (mat_start_typing plain_formats (mat_idle ''ab'' 3))) = []"
  by (simp add: mat_eval)

text \<open>
  In \<open>typer.py\<close> the flag is set by the first request at once: the second request changes the
  status line only, and one worker is started.
\<close>

lemma on_start_clicked_twice:
  assumes "\<not> is_typing w" and "str_strip (text_edit w) \<noteq> []"
  shows "on_start_clicked (on_start_clicked w)
           = (on_start_clicked w)\<lparr>status_label := ''Typing already in progress.''\<rparr>"
    and "workers (on_start_clicked (on_start_clicked w))
           = workers w @ [TypingWorker_init (text_edit w) (typing_speed w) (lang_combo w)
                            (delay_input w) (any_window_checkbox w)]"
    and "stop_event (on_start_clicked (on_start_clicked w)) = stop_event (on_start_clicked w)"
  using assms by (simp_all add: on_start_clicked_def start_typing_def)

text \<open>In \<open>auto_typer.py\<close> a stop request during the countdown does not keep the run from starting.\<close>

lemma mat_stop_in_countdown_ignored:
  "mat_threads (mat_run_after plain_formats
      (mat_stop_typing (mat_start_typing plain_formats (mat_idle ''ab'' 1)))) = [''ab'']"
  by (simp add: mat_eval)

section \<open>Equal start and stop hotkeys\<close>



end
